theory Spec2Isabelle
  imports
    Main
    "HOL-Library.FSet"
    "HOL-Library.Multiset"
    "HOL-Library.Char_ord"
    "HOL-Library.List_Lexorder"
    "HOL-Library.Product_Lexorder"
begin

section \<open>Totally ordered multicast with logical clocks\<close>

text \<open>
  A shallow embedding of \<^verbatim>\<open>message.py\<close> and of the sequential behaviour of
  \<^verbatim>\<open>process.py\<close>. Sockets, threads and the console are left out; what a method
  prints or sends is either returned next to the new state or, for the delivery
  callback, logged in the state. Python integers are \<open>int\<close>, \<open>str\<close> is \<open>string\<close>
  (compared character by character, a proper prefix first, as Python compares code
  points), a \<open>set\<close> of names is a finite set and a \<open>dict\<close> is a partial map.
\<close>

subsection \<open>Python values and exceptions\<close>

text \<open>The values that travel in the wire dictionary: \<open>None\<close>, a \<open>str\<close> or an \<open>int\<close>.\<close>

datatype pyval = PyNone | PyStr string | PyInt int

type_synonym pydict = "string \<rightharpoonup> pyval"

text \<open>
  \<open>KeyError k\<close>: a subscript \<open>d[k]\<close> on a missing key. \<open>ValueError v\<close>:
  \<open>MessageType(v)\<close> on a value that is no member of the enum. \<open>IllTyped f\<close> is not
  an exception of the source: it marks a dictionary whose field \<open>f\<close> holds a value
  outside the annotated type of that field, which Python would store unchecked and
  which the typed record below cannot hold.
\<close>

datatype error = KeyError pyval | ValueError pyval | IllTyped string

subsection \<open>message.py\<close>

datatype MessageType = MULTICAST | ACK

fun MessageType_value :: "MessageType \<Rightarrow> string" where
  "MessageType_value MULTICAST = ''multicast''"
| "MessageType_value ACK = ''ack''"

text \<open>The enum call \<open>MessageType(v)\<close>: lookup by value, \<open>None\<close> where Python raises.\<close>

definition MessageType_of :: "pyval \<Rightarrow> MessageType option" where
  "MessageType_of v =
     (if v = PyStr ''multicast'' then Some MULTICAST
      else if v = PyStr ''ack'' then Some ACK
      else None)"

record Message =
  msg_id :: string
  msg_type :: MessageType
  sender :: string
  timestamp :: int
  content :: "string option"
  original_msg_id :: "string option"

text \<open>Decimal printing of an integer, as \<open>str\<close> and the f-string do.\<close>

fun str_nat :: "nat \<Rightarrow> string" where
  "str_nat n =
     (if n < 10 then [''0123456789'' ! n]
      else str_nat (n div 10) @ [''0123456789'' ! (n mod 10)])"

definition str_int :: "int \<Rightarrow> string" where
  "str_int i = (if i < 0 then CHR ''-'' # str_nat (nat (- i)) else str_nat (nat i))"

text \<open>\<open>Message.__init__\<close>: the id is derived as \<open>f"{sender}_{timestamp}"\<close>.\<close>

definition Message_init ::
  "MessageType \<Rightarrow> string \<Rightarrow> int \<Rightarrow> string option \<Rightarrow> string option \<Rightarrow> Message" where
  "Message_init mt snd_name ts c orig =
     \<lparr>msg_id = snd_name @ ''_'' @ str_int ts, msg_type = mt, sender = snd_name,
      timestamp = ts, content = c, original_msg_id = orig\<rparr>"

definition opt_str :: "string option \<Rightarrow> pyval" where
  "opt_str x = (case x of None \<Rightarrow> PyNone | Some s \<Rightarrow> PyStr s)"

definition to_dict :: "Message \<Rightarrow> pydict" where
  "to_dict m =
     [''msg_id'' \<mapsto> PyStr (msg_id m),
      ''msg_type'' \<mapsto> PyStr (MessageType_value (msg_type m)),
      ''sender'' \<mapsto> PyStr (sender m),
      ''timestamp'' \<mapsto> PyInt (timestamp m),
      ''content'' \<mapsto> opt_str (content m),
      ''original_msg_id'' \<mapsto> opt_str (original_msg_id m)]"

text \<open>\<open>d.get(k)\<close>: \<open>None\<close> for a missing key.\<close>

definition dict_get :: "pydict \<Rightarrow> string \<Rightarrow> pyval" where
  "dict_get d k = (case d k of None \<Rightarrow> PyNone | Some v \<Rightarrow> v)"

text \<open>
  The typed reading of the five looked-up values. The source stores them unchecked;
  a value outside the field's annotation ends in \<open>IllTyped\<close>, after every lookup
  that can raise has been made.
\<close>

fun typed_message ::
  "MessageType \<Rightarrow> pyval \<Rightarrow> pyval \<Rightarrow> pyval \<Rightarrow> pyval \<Rightarrow> pyval \<Rightarrow> error + Message" where
  "typed_message mt (PyStr s) (PyInt ts) c orig (PyStr i) =
     (case c of
        PyInt _ \<Rightarrow> Inl (IllTyped ''content'')
      | _ \<Rightarrow>
        (case orig of
           PyInt _ \<Rightarrow> Inl (IllTyped ''original_msg_id'')
         | _ \<Rightarrow>
           Inr ((Message_init mt s ts
                   (case c of PyStr x \<Rightarrow> Some x | _ \<Rightarrow> None)
                   (case orig of PyStr x \<Rightarrow> Some x | _ \<Rightarrow> None))
                \<lparr>msg_id := i\<rparr>)))"
| "typed_message mt (PyStr s) (PyInt ts) c orig _ = Inl (IllTyped ''msg_id'')"
| "typed_message mt (PyStr s) _ c orig i = Inl (IllTyped ''timestamp'')"
| "typed_message mt _ ts c orig i = Inl (IllTyped ''sender'')"

text \<open>
  \<open>Message.from_dict\<close>: the constructor's arguments are evaluated left to right
  (\<open>data['msg_type']\<close>, the enum call, \<open>data['sender']\<close>, \<open>data['timestamp']\<close>, the
  two \<open>get\<close>s), the message is built with its derived id, and the id is then
  overwritten by \<open>data['msg_id']\<close>.
\<close>

definition from_dict :: "pydict \<Rightarrow> error + Message" where
  "from_dict d =
     (case d ''msg_type'' of
        None \<Rightarrow> Inl (KeyError (PyStr ''msg_type''))
      | Some v \<Rightarrow>
        (case MessageType_of v of
           None \<Rightarrow> Inl (ValueError v)
         | Some mt \<Rightarrow>
           (case d ''sender'' of
              None \<Rightarrow> Inl (KeyError (PyStr ''sender''))
            | Some s \<Rightarrow>
              (case d ''timestamp'' of
                 None \<Rightarrow> Inl (KeyError (PyStr ''timestamp''))
               | Some ts \<Rightarrow>
                 (let c = dict_get d ''content'';
                      orig = dict_get d ''original_msg_id''
                  in case d ''msg_id'' of
                       None \<Rightarrow> Inl (KeyError (PyStr ''msg_id''))
                     | Some i \<Rightarrow> typed_message mt s ts c orig i)))))"

subsection \<open>process.py: construction\<close>

text \<open>
  The fields of \<open>Process\<close> that the sequential behaviour reads or writes; the locks,
  the socket and the running flag are not modelled. Dictionary keys are Python
  objects that are a \<open>str\<close> or \<open>None\<close> (\<open>original_msg_id\<close> is optional), hence
  \<open>string option\<close>. \<open>delivered\<close> records the calls of \<open>_deliver_message\<close>, whose only
  effect in the source is to print the delivered message.
\<close>

type_synonym msg_key = "string option"

record Process =
  proc_id :: string
  port :: int
  other_ports :: "int list"
  clock_increment :: int
  logical_clock :: int
  message_queue :: "Message list"
  acknowledgments :: "msg_key \<rightharpoonup> string fset"
  all_ports :: "int list"
  all_processes :: "string fset"
  required_acks :: nat
  pending_acks :: "msg_key \<rightharpoonup> Message list"
  delivered :: "Message list"

definition port_to_process :: "int \<rightharpoonup> string" where
  "port_to_process =
     [5000 \<mapsto> ''processo1'', 5001 \<mapsto> ''processo2'', 5002 \<mapsto> ''processo3'']"

text \<open>
  The comprehension \<open>[port_to_process[p] for p in self.all_ports]\<close>: the first
  missing port raises.
\<close>

fun lookup_ports :: "int list \<Rightarrow> error + string list" where
  "lookup_ports [] = Inr []"
| "lookup_ports (p # ps) =
     (case port_to_process p of
        None \<Rightarrow> Inl (KeyError (PyInt p))
      | Some name \<Rightarrow>
        (case lookup_ports ps of
           Inl e \<Rightarrow> Inl e
         | Inr names \<Rightarrow> Inr (name # names)))"

definition Process_init :: "string \<Rightarrow> int \<Rightarrow> int list \<Rightarrow> int \<Rightarrow> error + Process" where
  "Process_init pid prt others inc =
     (let ports = sort (prt # others)
      in case lookup_ports ports of
           Inl e \<Rightarrow> Inl e
         | Inr names \<Rightarrow>
           Inr \<lparr>proc_id = pid, port = prt, other_ports = others, clock_increment = inc,
                logical_clock = 0, message_queue = [], acknowledgments = Map.empty,
                all_ports = ports, all_processes = fset_of_list names,
                required_acks = fcard (fset_of_list names),
                pending_acks = Map.empty, delivered = []\<rparr>)"

subsection \<open>process.py: the logical clock\<close>

definition increment_clock :: "Process \<Rightarrow> int \<times> Process" where
  "increment_clock s =
     (let s' = s\<lparr>logical_clock := logical_clock s + clock_increment s\<rparr>
      in (logical_clock s', s'))"

definition update_clock_on_receive :: "Process \<Rightarrow> int \<Rightarrow> Process" where
  "update_clock_on_receive s received_timestamp =
     s\<lparr>logical_clock := max (logical_clock s) received_timestamp\<rparr>"

definition increment_for_delivery :: "Process \<Rightarrow> int \<times> Process" where
  "increment_for_delivery s =
     (let s' = s\<lparr>logical_clock := logical_clock s + clock_increment s\<rparr>
      in (logical_clock s', s'))"

definition get_clock :: "Process \<Rightarrow> int" where
  "get_clock s = logical_clock s"

subsection \<open>process.py: the receive path\<close>

text \<open>
  \<open>_process_acknowledgment\<close>. \<open>pending_held\<close> says whether the calling thread
  already holds \<open>pending_lock\<close>, as it does while \<open>_process_received_message\<close>
  replays buffered acknowledgments. \<open>threading.Lock\<close> is not re-entrant, so taking
  it again in the buffering branch never returns: the result \<open>None\<close>.
\<close>

definition process_acknowledgment :: "bool \<Rightarrow> Process \<Rightarrow> Message \<Rightarrow> Process option" where
  "process_acknowledgment pending_held s message =
     (let s1 = update_clock_on_receive s (timestamp message);
          s2 = snd (increment_for_delivery s1);
          k = original_msg_id message
      in case acknowledgments s2 k of
           Some acked \<Rightarrow>
             Some (s2\<lparr>acknowledgments :=
                        (acknowledgments s2)(k \<mapsto> finsert (sender message) acked)\<rparr>)
         | None \<Rightarrow>
             if pending_held then None
             else Some (s2\<lparr>pending_acks :=
                             (pending_acks s2)
                               (k \<mapsto> (case pending_acks s2 k of None \<Rightarrow> [] | Some l \<Rightarrow> l)
                                        @ [message])\<rparr>))"

text \<open>The loop \<open>for ack_msg in pending_ack_messages\<close>, run under \<open>pending_lock\<close>.\<close>

fun replay :: "Message list \<Rightarrow> Process \<Rightarrow> Process option" where
  "replay [] s = Some s"
| "replay (ack_msg # rest) s =
     (case process_acknowledgment True s ack_msg of
        None \<Rightarrow> None
      | Some s' \<Rightarrow> replay rest s')"

text \<open>The key of \<open>message_queue.sort\<close>: \<open>lambda m: (m.timestamp, m.sender)\<close>.\<close>

definition queue_key :: "Message \<Rightarrow> int \<times> string" where
  "queue_key m = (timestamp m, sender m)"

text \<open>
  \<open>_process_received_message\<close>. \<open>list.sort\<close> is a stable sort, as \<open>sort_key\<close> is.
  The timer that later calls \<open>_send_acknowledgment\<close> is the event \<open>SendAck\<close> below.
\<close>

definition process_received_message :: "Process \<Rightarrow> Message \<Rightarrow> Process option" where
  "process_received_message s message =
     (case msg_type message of
        MULTICAST \<Rightarrow>
          (let s1 = update_clock_on_receive s (timestamp message);
               s2 = snd (increment_for_delivery s1);
               s3 = s2\<lparr>message_queue := sort_key queue_key (message_queue s2 @ [message])\<rparr>;
               s4 = s3\<lparr>acknowledgments := (acknowledgments s3)(Some (msg_id message) \<mapsto> {||})\<rparr>
           in case pending_acks s4 (Some (msg_id message)) of
                Some pending_ack_messages \<Rightarrow>
                  replay pending_ack_messages
                    (s4\<lparr>pending_acks := (pending_acks s4)(Some (msg_id message) := None)\<rparr>)
              | None \<Rightarrow> Some s4)
      | ACK \<Rightarrow> process_acknowledgment False s message)"

text \<open>\<open>_send_acknowledgment\<close>: the acknowledgment handed to the broadcast, and the new state.\<close>

definition send_acknowledgment :: "Process \<Rightarrow> Message \<Rightarrow> Message \<times> Process" where
  "send_acknowledgment s original_message =
     (let (current_time, s1) = increment_clock s
      in (Message_init ACK (proc_id s1) current_time None (Some (msg_id original_message)), s1))"

subsection \<open>process.py: delivery and sending\<close>

definition deliver_message :: "Process \<Rightarrow> Message \<Rightarrow> Process" where
  "deliver_message s message = s\<lparr>delivered := delivered s @ [message]\<rparr>"

definition try_deliver_message :: "Process \<Rightarrow> bool \<times> Process" where
  "try_deliver_message s =
     (case message_queue s of
        [] \<Rightarrow> (False, s)
      | head_message # rest \<Rightarrow>
          (case acknowledgments s (Some (msg_id head_message)) of
             Some acked_by \<Rightarrow>
               if required_acks s \<le> fcard acked_by
               then (True,
                     deliver_message
                       (s\<lparr>message_queue := rest,
                          acknowledgments :=
                            (acknowledgments s)(Some (msg_id head_message) := None)\<rparr>)
                       head_message)
               else (False, s)
           | None \<Rightarrow> (False, s)))"

text \<open>\<open>send_message\<close>: the multicast handed to the broadcast, and the new state.\<close>

definition send_message :: "Process \<Rightarrow> string \<Rightarrow> Message \<times> Process" where
  "send_message s c =
     (let (current_time, s1) = increment_clock s;
          message = Message_init MULTICAST (proc_id s1) current_time (Some c) None
      in (message,
          s1\<lparr>acknowledgments := (acknowledgments s1)(Some (msg_id message) \<mapsto> {||})\<rparr>))"

subsection \<open>Runs of one process\<close>

text \<open>
  What can happen to a process, one event at a time: a decoded message arrives, the
  operator asks for a delivery, sends a message or lets the clock pass, or the timer
  of a received multicast fires.
\<close>

datatype event = Receive Message | Deliver | Send string | Pass | SendAck Message

fun step :: "Process \<Rightarrow> event \<Rightarrow> Process option" where
  "step s (Receive m) = process_received_message s m"
| "step s Deliver = Some (snd (try_deliver_message s))"
| "step s (Send c) = Some (snd (send_message s c))"
| "step s Pass = Some (snd (increment_clock s))"
| "step s (SendAck m) = Some (snd (send_acknowledgment s m))"

fun run :: "Process \<Rightarrow> event list \<Rightarrow> Process option" where
  "run s [] = Some s"
| "run s (e # es) = (case step s e of None \<Rightarrow> None | Some s' \<Rightarrow> run s' es)"

text \<open>The states a constructed process can be in.\<close>

inductive reachable :: "Process \<Rightarrow> bool" where
  reachable_init: "Process_init pid prt others inc = Inr s \<Longrightarrow> reachable s"
| reachable_step: "reachable s \<Longrightarrow> step s e = Some s' \<Longrightarrow> reachable s'"

text \<open>The clock operations alone, for runs of the clock.\<close>

datatype clock_op = Increment_clock | Update_clock_on_receive int | Increment_for_delivery

fun clock_step :: "Process \<Rightarrow> clock_op \<Rightarrow> Process" where
  "clock_step s Increment_clock = snd (increment_clock s)"
| "clock_step s (Update_clock_on_receive x) = update_clock_on_receive s x"
| "clock_step s Increment_for_delivery = snd (increment_for_delivery s)"

text \<open>The clock values after each operation of a sequence, in order.\<close>

fun clock_trace :: "Process \<Rightarrow> clock_op list \<Rightarrow> int list" where
  "clock_trace s [] = []"
| "clock_trace s (x # xs) = logical_clock (clock_step s x) # clock_trace (clock_step s x) xs"

subsection \<open>Vocabulary for the statements\<close>

text \<open>The acknowledgments buffered under a key: the list of the entry, empty without one.\<close>

definition buffered :: "Process \<Rightarrow> msg_key \<Rightarrow> Message list" where
  "buffered s k = (case pending_acks s k of None \<Rightarrow> [] | Some l \<Rightarrow> l)"

text \<open>
  The clock after the acknowledgments \<open>l\<close> have gone through the clock rule of the
  receive path (maximum with the timestamp, then one increment), one after the other.
\<close>

definition replay_clock :: "int \<Rightarrow> int \<Rightarrow> Message list \<Rightarrow> int" where
  "replay_clock inc c l = foldl (\<lambda>c a. max c (timestamp a) + inc) c l"

text \<open>
  Every acknowledgment in the pending buffer is filed under the id it acknowledges.
  This holds in every state a process reaches (\<open>reachable_pending_wf\<close> below).
\<close>

definition pending_wf :: "Process \<Rightarrow> bool" where
  "pending_wf s \<longleftrightarrow>
     (\<forall>k l. pending_acks s k = Some l \<longrightarrow> (\<forall>a\<in>set l. original_msg_id a = k))"

subsection \<open>Example states and messages\<close>

text \<open>
  The group of \<^verbatim>\<open>main.py\<close>: three processes on the ports 5000 to 5002. The first
  process, freshly constructed with increment 1, two multicasts and the
  acknowledgments of the first one.
\<close>

definition example_process :: Process where
  "example_process =
     \<lparr>proc_id = ''processo1'', port = 5000, other_ports = [5001, 5002],
      clock_increment = 1, logical_clock = 0, message_queue = [],
      acknowledgments = Map.empty, all_ports = [5000, 5001, 5002],
      all_processes = {|''processo1'', ''processo2'', ''processo3''|},
      required_acks = 3, pending_acks = Map.empty, delivered = []\<rparr>"

definition example_hello :: Message where
  "example_hello =
     \<lparr>msg_id = ''processo1_1'', msg_type = MULTICAST, sender = ''processo1'',
      timestamp = 1, content = Some ''hello'', original_msg_id = None\<rparr>"

definition example_world :: Message where
  "example_world =
     \<lparr>msg_id = ''processo2_2'', msg_type = MULTICAST, sender = ''processo2'',
      timestamp = 2, content = Some ''world'', original_msg_id = None\<rparr>"

definition example_ack :: "string \<Rightarrow> int \<Rightarrow> Message" where
  "example_ack from_name ts =
     \<lparr>msg_id = from_name @ ''_'' @ str_int ts, msg_type = ACK, sender = from_name,
      timestamp = ts, content = None, original_msg_id = Some ''processo1_1''\<rparr>"

text \<open>
  Both multicasts queued; the head has two of three acknowledgments, the second
  message has all three.
\<close>

definition example_blocked :: Process where
  "example_blocked =
     example_process
       \<lparr>message_queue := [example_hello, example_world],
        acknowledgments :=
          [Some ''processo1_1'' \<mapsto> {|''processo1'', ''processo2''|},
           Some ''processo2_2'' \<mapsto> {|''processo1'', ''processo2'', ''processo3''|}]\<rparr>"

text \<open>The same queue once the head has all three acknowledgments.\<close>

definition example_ready :: Process where
  "example_ready =
     example_process
       \<lparr>message_queue := [example_hello, example_world],
        acknowledgments :=
          [Some ''processo1_1'' \<mapsto> {|''processo1'', ''processo2'', ''processo3''|},
           Some ''processo2_2'' \<mapsto> {|''processo1'', ''processo2'', ''processo3''|}]\<rparr>"

text \<open>
  A second multicast with the sender and timestamp of \<open>example_hello\<close> and another
  content, as a restarted \<open>processo1\<close> would send it.
\<close>

definition example_twin :: Message where
  "example_twin =
     \<lparr>msg_id = ''processo1_1'', msg_type = MULTICAST, sender = ''processo1'',
      timestamp = 1, content = Some ''again'', original_msg_id = None\<rparr>"

text \<open>Two multicasts with the same timestamp from different senders.\<close>

definition example_tie :: "string \<Rightarrow> Message" where
  "example_tie from_name =
     \<lparr>msg_id = from_name @ ''_5'', msg_type = MULTICAST, sender = from_name,
      timestamp = 5, content = Some ''tie'', original_msg_id = None\<rparr>"

text \<open>
  The example process after the acknowledgments of \<open>processo2\<close> (timestamp 3) and
  \<open>processo3\<close> (timestamp 4) for \<open>processo1_1\<close> have arrived before the multicast.
\<close>

definition example_pending :: Process where
  "example_pending =
     example_process
       \<lparr>logical_clock := 5,
        pending_acks :=
          [Some ''processo1_1'' \<mapsto> [example_ack ''processo2'' 3, example_ack ''processo3'' 4]]\<rparr>"

text \<open>
  The example process after it has received \<open>example_hello\<close> and the
  acknowledgments of all three processes (timestamp 3 each), before the delivery.
\<close>

definition example_acked :: Process where
  "example_acked =
     example_process
       \<lparr>logical_clock := 6, message_queue := [example_hello],
        acknowledgments :=
          [Some ''processo1_1'' \<mapsto> {|''processo3'', ''processo2'', ''processo1''|}]\<rparr>"

text \<open>
  The example process after it has received \<open>example_hello\<close> and the three
  acknowledgments (timestamp 3 each) and has delivered the message; and the same
  process after one more acknowledgment of \<open>processo2\<close> (timestamp 9) has arrived.
\<close>

definition example_delivered :: Process where
  "example_delivered = example_process\<lparr>logical_clock := 6, delivered := [example_hello]\<rparr>"

definition example_late :: Process where
  "example_late =
     example_delivered
       \<lparr>logical_clock := 10,
        pending_acks := [Some ''processo1_1'' \<mapsto> [example_ack ''processo2'' 9]]\<rparr>"

text \<open>
  The example process after the two tied multicasts have arrived, \<open>processo1\<close>'s
  first; and after they have arrived in the other order and the clock has passed once.
\<close>

definition example_tie_ab :: Process where
  "example_tie_ab =
     example_process
       \<lparr>logical_clock := 7,
        message_queue := [example_tie ''processo1'', example_tie ''processo2''],
        acknowledgments := [Some ''processo1_5'' \<mapsto> {||}, Some ''processo2_5'' \<mapsto> {||}]\<rparr>"

definition example_tie_ba :: Process where
  "example_tie_ba =
     example_process
       \<lparr>logical_clock := 8,
        message_queue := [example_tie ''processo1'', example_tie ''processo2''],
        acknowledgments := [Some ''processo2_5'' \<mapsto> {||}, Some ''processo1_5'' \<mapsto> {||}]\<rparr>"

text \<open>
  A wire dictionary whose \<open>msg_id\<close> is not the id its sender and timestamp would
  derive.
\<close>

definition example_wire :: pydict where
  "example_wire =
     [''msg_id'' \<mapsto> PyStr ''forged'', ''msg_type'' \<mapsto> PyStr ''multicast'',
      ''sender'' \<mapsto> PyStr ''processo1'', ''timestamp'' \<mapsto> PyInt 1,
      ''content'' \<mapsto> PyStr ''hello'', ''original_msg_id'' \<mapsto> PyNone]"

declare str_nat.simps [simp del]

section \<open>The logical clock\<close>

lemma clock_step_increment: "clock_increment (clock_step s x) = clock_increment s"
  by (cases x) (simp_all add: increment_clock_def update_clock_on_receive_def
      increment_for_delivery_def Let_def)

lemma clock_step_mono:
  "0 \<le> clock_increment s \<Longrightarrow> logical_clock s \<le> logical_clock (clock_step s x)"
  by (cases x) (simp_all add: increment_clock_def update_clock_on_receive_def
      increment_for_delivery_def Let_def)

lemma clock_trace_sorted:
  "0 \<le> clock_increment s \<Longrightarrow> sorted (logical_clock s # clock_trace s xs)"
proof (induction xs arbitrary: s)
  case Nil
  show ?case by simp
next
  case (Cons x xs)
  have inc: "0 \<le> clock_increment (clock_step s x)"
    using Cons.prems by (simp add: clock_step_increment)
  have "sorted (logical_clock (clock_step s x) # clock_trace (clock_step s x) xs)"
    by (rule Cons.IH [OF inc])
  moreover have "logical_clock s \<le> logical_clock (clock_step s x)"
    by (rule clock_step_mono [OF Cons.prems])
  ultimately show ?case by auto
qed

text \<open>
  C7. With a positive increment, the clock values along any sequence of
  \<open>increment_clock\<close>, \<open>update_clock_on_receive x\<close> and \<open>increment_for_delivery\<close>
  calls, starting with the value before the first call, never decrease; and
  \<open>update_clock_on_receive x\<close> sets the clock to the maximum of the clock and \<open>x\<close>,
  which is not below the old clock (this part needs no assumption on the increment).
\<close>

theorem clock_non_decreasing:
  assumes "0 < clock_increment s"
  shows "sorted (logical_clock s # clock_trace s xs)
       \<and> logical_clock (update_clock_on_receive s x) = max (logical_clock s) x
       \<and> logical_clock s \<le> logical_clock (update_clock_on_receive s x)"
proof -
  have "sorted (logical_clock s # clock_trace s xs)"
    using assms by (intro clock_trace_sorted) simp
  then show ?thesis by (simp add: update_clock_on_receive_def)
qed

theorem clock_non_decreasing_witness:
  "0 < clock_increment example_process
   \<and> clock_trace example_process
        [Increment_clock, Update_clock_on_receive 7, Update_clock_on_receive 3,
         Increment_for_delivery] = [1, 7, 7, 8]
   \<and> sorted (logical_clock example_process #
        clock_trace example_process
          [Increment_clock, Update_clock_on_receive 7, Update_clock_on_receive 3,
           Increment_for_delivery])
   \<and> logical_clock (update_clock_on_receive example_process (- 4)) = 0"
  using clock_non_decreasing [of example_process
      "[Increment_clock, Update_clock_on_receive 7, Update_clock_on_receive 3,
        Increment_for_delivery]" "- 4"]
  by (simp add: example_process_def increment_clock_def update_clock_on_receive_def
      increment_for_delivery_def Let_def)

section \<open>Delivery\<close>

text \<open>
  C1. \<open>try_deliver_message\<close> reports success exactly when the queue has a head, the
  head's id has an entry in the acknowledgment table and that entry holds at least
  \<open>required_acks\<close> names. Whatever the table says about other messages, the only
  message a call can hand to the delivery callback is the head (the first element of
  the queue). A head whose id has no entry is not delivered.
\<close>

theorem try_deliver_message_head_only:
  "(fst (try_deliver_message s) \<longleftrightarrow>
      (\<exists>h rest a. message_queue s = h # rest
         \<and> acknowledgments s (Some (msg_id h)) = Some a \<and> required_acks s \<le> fcard a))
   \<and> delivered (snd (try_deliver_message s)) =
       delivered s @ (if fst (try_deliver_message s) then take 1 (message_queue s) else [])
   \<and> (\<forall>h rest. message_queue s = h # rest \<and> acknowledgments s (Some (msg_id h)) = None
        \<longrightarrow> \<not> fst (try_deliver_message s))"
  by (auto simp: try_deliver_message_def deliver_message_def
      split: list.splits option.splits)

text \<open>
  The blocked queue: the head has 2 of 3 acknowledgments and the second message 3 of
  3, and nothing is delivered; with the third acknowledgment the head, and only the
  head, is delivered; and a head without an entry blocks.
\<close>

theorem try_deliver_message_head_only_witness:
  "\<not> fst (try_deliver_message example_blocked)
   \<and> delivered (snd (try_deliver_message example_blocked)) = []
   \<and> fst (try_deliver_message example_ready)
   \<and> delivered (snd (try_deliver_message example_ready)) = [example_hello]
   \<and> message_queue (example_blocked\<lparr>acknowledgments := Map.empty\<rparr>)
       = example_hello # [example_world]
   \<and> acknowledgments (example_blocked\<lparr>acknowledgments := Map.empty\<rparr>)
       (Some (msg_id example_hello)) = None
   \<and> \<not> fst (try_deliver_message (example_blocked\<lparr>acknowledgments := Map.empty\<rparr>))"
  using try_deliver_message_head_only [of example_blocked]
    try_deliver_message_head_only [of example_ready]
    try_deliver_message_head_only [of "example_blocked\<lparr>acknowledgments := Map.empty\<rparr>"]
  by (simp add: example_blocked_def example_ready_def example_process_def
      example_hello_def example_world_def fcard_finsert_if fcard_fempty
      try_deliver_message_def deliver_message_def)

text \<open>
  C4. On an empty queue, or on a head whose acknowledgment set is absent or smaller
  than \<open>required_acks\<close>, \<open>try_deliver_message\<close> returns \<open>False\<close> and the state it
  leaves is the state it found: queue, acknowledgment table, pending buffer, clock
  and every other field. The call returns normally: the model of the method has no
  raising branch, and the step of the process is defined.
\<close>

theorem try_deliver_not_ready:
  assumes "message_queue s = []
     \<or> (\<exists>h rest. message_queue s = h # rest
          \<and> (acknowledgments s (Some (msg_id h)) = None
             \<or> (\<exists>a. acknowledgments s (Some (msg_id h)) = Some a
                  \<and> fcard a < required_acks s)))"
  shows "try_deliver_message s = (False, s) \<and> step s Deliver = Some s"
  using assms by (auto simp: try_deliver_message_def)

theorem try_deliver_not_ready_witness:
  "message_queue example_process = []
   \<and> try_deliver_message example_process = (False, example_process)
   \<and> step example_process Deliver = Some example_process
   \<and> message_queue example_blocked = example_hello # [example_world]
   \<and> acknowledgments example_blocked (Some (msg_id example_hello))
       = Some {|''processo1'', ''processo2''|}
   \<and> fcard {|''processo1'', ''processo2''|} < required_acks example_blocked
   \<and> try_deliver_message example_blocked = (False, example_blocked)"
proof -
  have e: "message_queue example_process = []"
    by (simp add: example_process_def)
  have q: "message_queue example_blocked = example_hello # [example_world]"
    by (simp add: example_blocked_def)
  have a: "acknowledgments example_blocked (Some (msg_id example_hello))
       = Some {|''processo1'', ''processo2''|}"
    by (simp add: example_blocked_def example_hello_def)
  have c: "fcard {|''processo1'', ''processo2''|} < required_acks example_blocked"
    by (simp add: example_blocked_def example_process_def fcard_finsert_if fcard_fempty)
  from e have "try_deliver_message example_process = (False, example_process)
      \<and> step example_process Deliver = Some example_process"
    by (intro try_deliver_not_ready) simp
  moreover from q a c have "try_deliver_message example_blocked = (False, example_blocked)
      \<and> step example_blocked Deliver = Some example_blocked"
    by (intro try_deliver_not_ready) blast
  ultimately show ?thesis using e q a c by simp
qed

text \<open>
  C5. A successful \<open>try_deliver_message\<close> pops the head of the queue, deletes the
  head's entry of the acknowledgment table and hands the head to the delivery
  callback, once. The rest of the queue is kept in its order, every other entry of the
  table, the pending buffer, the clock and all other fields are as before. The next
  call examines the new head: it succeeds exactly when the remaining queue has a head
  whose entry in the new table is large enough.
\<close>

theorem try_deliver_success_frame:
  assumes "try_deliver_message s = (True, s')"
  shows "\<exists>h rest a.
           message_queue s = h # rest
         \<and> acknowledgments s (Some (msg_id h)) = Some a
         \<and> s' = s\<lparr>message_queue := rest,
                   acknowledgments := (acknowledgments s)(Some (msg_id h) := None),
                   delivered := delivered s @ [h]\<rparr>
         \<and> acknowledgments s' (Some (msg_id h)) = None
         \<and> (\<forall>k. k \<noteq> Some (msg_id h) \<longrightarrow> acknowledgments s' k = acknowledgments s k)
         \<and> pending_acks s' = pending_acks s
         \<and> logical_clock s' = logical_clock s
         \<and> (fst (try_deliver_message s') \<longleftrightarrow>
              (\<exists>h2 rest2 a2. rest = h2 # rest2
                 \<and> acknowledgments s' (Some (msg_id h2)) = Some a2
                 \<and> required_acks s \<le> fcard a2))
         \<and> delivered (snd (try_deliver_message s')) =
             delivered s @ [h] @ (if fst (try_deliver_message s') then take 1 rest else [])"
proof -
  from assms obtain h rest a where
    q: "message_queue s = h # rest" and
    a: "acknowledgments s (Some (msg_id h)) = Some a" and
    s': "s' = s\<lparr>message_queue := rest,
                 acknowledgments := (acknowledgments s)(Some (msg_id h) := None),
                 delivered := delivered s @ [h]\<rparr>"
    by (auto simp: try_deliver_message_def deliver_message_def
        split: list.splits option.splits if_splits)
  have next_call: "fst (try_deliver_message s') \<longleftrightarrow>
      (\<exists>h2 rest2 a2. rest = h2 # rest2
         \<and> acknowledgments s' (Some (msg_id h2)) = Some a2
         \<and> required_acks s \<le> fcard a2)"
    by (auto simp: s' try_deliver_message_def split: list.splits option.splits)
  have log: "delivered (snd (try_deliver_message s')) =
      delivered s @ [h] @ (if fst (try_deliver_message s') then take 1 rest else [])"
    by (auto simp: s' try_deliver_message_def deliver_message_def
        split: list.splits option.splits)
  have frame: "acknowledgments s' (Some (msg_id h)) = None
      \<and> (\<forall>k. k \<noteq> Some (msg_id h) \<longrightarrow> acknowledgments s' k = acknowledgments s k)
      \<and> pending_acks s' = pending_acks s \<and> logical_clock s' = logical_clock s"
    by (simp add: s')
  from q a s' frame next_call log show ?thesis by blast
qed

text \<open>
  From the ready queue the first call delivers \<open>hello\<close> and the second one \<open>world\<close>:
  each call takes the head it finds.
\<close>

theorem try_deliver_success_frame_witness:
  "try_deliver_message example_ready =
     (True, example_ready
        \<lparr>message_queue := [example_world],
         acknowledgments := (acknowledgments example_ready)(Some ''processo1_1'' := None),
         delivered := [example_hello]\<rparr>)
   \<and> fst (try_deliver_message (snd (try_deliver_message example_ready)))
   \<and> delivered (snd (try_deliver_message (snd (try_deliver_message example_ready))))
       = [example_hello, example_world]"
proof -
  have r: "try_deliver_message example_ready =
     (True, example_ready
        \<lparr>message_queue := [example_world],
         acknowledgments := (acknowledgments example_ready)(Some ''processo1_1'' := None),
         delivered := [example_hello]\<rparr>)"
    by (simp add: try_deliver_message_def deliver_message_def example_ready_def
        example_process_def example_hello_def example_world_def fcard_finsert_if fcard_fempty)
  from try_deliver_success_frame [OF r] show ?thesis
    by (simp add: r) (simp add: try_deliver_message_def deliver_message_def example_ready_def
        example_process_def example_hello_def example_world_def fcard_finsert_if fcard_fempty)
qed

section \<open>Messages on the wire\<close>

lemma MessageType_of_value: "MessageType_of (PyStr (MessageType_value t)) = Some t"
  by (cases t) (simp_all add: MessageType_of_def)

lemma typed_message_opt_str:
  "typed_message mt (PyStr s) (PyInt ts) (opt_str c) (opt_str orig) (PyStr i) =
     Inr ((Message_init mt s ts c orig)\<lparr>msg_id := i\<rparr>)"
  by (cases c; cases orig) (simp_all add: opt_str_def)

lemma from_dict_msg_id:
  assumes "from_dict d = Inr m"
  shows "d ''msg_id'' = Some (PyStr (msg_id m))"
proof -
  from assms obtain mt s ts c orig i where
    i: "d ''msg_id'' = Some i" and t: "typed_message mt s ts c orig i = Inr m"
    by (auto simp: from_dict_def Let_def split: option.splits)
  from t have "i = PyStr (msg_id m)"
    by (cases "(mt, s, ts, c, orig, i)" rule: typed_message.cases)
      (auto split: pyval.splits)
  with i show ?thesis by simp
qed

text \<open>
  C9. Decoding the dictionary of any message gives the message back, equal in all six
  fields. The decoded id is the \<open>msg_id\<close> value of the dictionary, whatever the sender
  and timestamp of the dictionary would derive.
\<close>

theorem from_dict_to_dict:
  "from_dict (to_dict m) = Inr m
   \<and> (from_dict d = Inr m' \<longrightarrow> d ''msg_id'' = Some (PyStr (msg_id m')))"
proof -
  have "from_dict (to_dict m) = Inr m"
    by (cases m) (simp add: from_dict_def to_dict_def dict_get_def MessageType_of_value
        typed_message_opt_str Message_init_def Let_def del: typed_message.simps)
  then show ?thesis using from_dict_msg_id by blast
qed

text \<open>
  The dictionary with the id \<open>forged\<close> decodes to a message with that id, not the
  id \<open>processo1_1\<close> that the constructor derives, and encodes back to itself.
\<close>

theorem from_dict_to_dict_witness:
  "from_dict example_wire = Inr (example_hello\<lparr>msg_id := ''forged''\<rparr>)
   \<and> example_wire ''msg_id'' = Some (PyStr ''forged'')
   \<and> msg_id (Message_init MULTICAST ''processo1'' 1 (Some ''hello'') None) = ''processo1_1''
   \<and> from_dict (to_dict (example_hello\<lparr>msg_id := ''forged''\<rparr>))
       = Inr (example_hello\<lparr>msg_id := ''forged''\<rparr>)"
proof -
  have d: "from_dict example_wire = Inr (example_hello\<lparr>msg_id := ''forged''\<rparr>)"
    by (simp add: from_dict_def example_wire_def example_hello_def dict_get_def
        MessageType_of_def Message_init_def)
  have i: "msg_id (Message_init MULTICAST ''processo1'' 1 (Some ''hello'') None) = ''processo1_1''"
    by (simp add: Message_init_def str_int_def str_nat.simps)
  from from_dict_to_dict [of "example_hello\<lparr>msg_id := ''forged''\<rparr>" example_wire
      "example_hello\<lparr>msg_id := ''forged''\<rparr>"] d i
  show ?thesis by simp
qed

section \<open>Construction\<close>

lemma port_to_process_None: "port_to_process p = None \<longleftrightarrow> p \<notin> {5000, 5001, 5002}"
  by (simp add: port_to_process_def)

lemma inj_on_port_to_process: "inj_on port_to_process {5000, 5001, 5002}"
  by (simp add: port_to_process_def)

lemma lookup_ports_missing:
  "\<exists>p\<in>set ps. port_to_process p = None \<Longrightarrow>
     \<exists>k. lookup_ports ps = Inl (KeyError (PyInt k)) \<and> k \<in> set ps \<and> port_to_process k = None"
proof (induction ps)
  case Nil
  then show ?case by simp
next
  case (Cons a ps)
  show ?case
  proof (cases "port_to_process a")
    case None
    then show ?thesis by auto
  next
    case (Some name)
    with Cons.prems have "\<exists>p\<in>set ps. port_to_process p = None" by auto
    from Cons.IH [OF this] Some show ?thesis by auto
  qed
qed

lemma lookup_ports_present:
  "\<forall>p\<in>set ps. port_to_process p \<noteq> None \<Longrightarrow>
     lookup_ports ps = Inr (map (\<lambda>p. the (port_to_process p)) ps)"
  by (induction ps) auto

lemma fcard_fset_of_list: "fcard (fset_of_list xs) = card (set xs)"
  by (simp add: fcard.rep_eq fset_of_list.rep_eq)

text \<open>
  C10. If the own port or one of the other ports is not 5000, 5001 or 5002, the
  constructor ends in the \<open>KeyError\<close> of the port map, raised for such a port; the
  constructor opens no socket, so this is before any networking. If all ports are
  among the three, the constructor returns a process whose \<open>required_acks\<close> is the
  number of distinct names the ports map to, which is also the number of distinct
  ports.
\<close>

theorem Process_init_ports:
  "((\<exists>p\<in>set (prt # others). p \<notin> {5000, 5001, 5002}) \<longrightarrow>
      (\<exists>k. Process_init pid prt others inc = Inl (KeyError (PyInt k))
         \<and> k \<in> set (prt # others) \<and> k \<notin> {5000, 5001, 5002}))
   \<and> ((\<forall>p\<in>set (prt # others). p \<in> {5000, 5001, 5002}) \<longrightarrow>
      (\<exists>s. Process_init pid prt others inc = Inr s
         \<and> required_acks s = card {n. \<exists>p\<in>set (prt # others). port_to_process p = Some n}
         \<and> required_acks s = card (set (prt # others))))"
proof (intro conjI impI)
  assume "\<exists>p\<in>set (prt # others). p \<notin> {5000, 5001, 5002}"
  then have "\<exists>p\<in>set (sort (prt # others)). port_to_process p = None"
    by (simp only: port_to_process_None set_sort)
  from lookup_ports_missing [OF this]
  obtain k where "lookup_ports (sort (prt # others)) = Inl (KeyError (PyInt k))"
    and "k \<in> set (sort (prt # others))" and "port_to_process k = None"
    by blast
  then show "\<exists>k. Process_init pid prt others inc = Inl (KeyError (PyInt k))
         \<and> k \<in> set (prt # others) \<and> k \<notin> {5000, 5001, 5002}"
    by (auto simp: Process_init_def port_to_process_None simp del: sort_key_simps)
next
  let ?P = "set (prt # others)"
  let ?name = "\<lambda>p. the (port_to_process p)"
  assume all: "\<forall>p\<in>?P. p \<in> {5000, 5001, 5002}"
  then have present: "\<forall>p\<in>set (sort (prt # others)). port_to_process p \<noteq> None"
    by (simp only: port_to_process_None set_sort) blast
  have names: "lookup_ports (sort (prt # others)) = Inr (map ?name (sort (prt # others)))"
    by (rule lookup_ports_present [OF present])
  have sub: "?P \<subseteq> {5000, 5001, 5002}"
    using all by blast
  have "inj_on ?name {5000, 5001, 5002}"
    by (simp add: port_to_process_def)
  then have inj: "inj_on ?name ?P"
    using sub by (rule inj_on_subset)
  have img: "{n. \<exists>p\<in>?P. port_to_process p = Some n} = ?name ` ?P"
  proof -
    have "\<And>p. p \<in> ?P \<Longrightarrow> port_to_process p = Some (?name p)"
      using all port_to_process_None by (metis option.collapse)
    then show ?thesis by (force simp: image_iff)
  qed
  have "card (set (map ?name (sort (prt # others)))) = card (?name ` ?P)"
    by (simp only: set_map set_sort)
  also have "\<dots> = card ?P"
    by (rule card_image [OF inj])
  finally have c: "card (set (map ?name (sort (prt # others)))) = card ?P" .
  have r: "fcard (fset_of_list (map ?name (sort (prt # others)))) = card ?P"
    using c by (simp only: fcard_fset_of_list)
  define s where "s =
     \<lparr>proc_id = pid, port = prt, other_ports = others, clock_increment = inc,
      logical_clock = 0, message_queue = [], acknowledgments = Map.empty,
      all_ports = sort (prt # others),
      all_processes = fset_of_list (map ?name (sort (prt # others))),
      required_acks = fcard (fset_of_list (map ?name (sort (prt # others)))),
      pending_acks = Map.empty, delivered = []\<rparr>"
  have "Process_init pid prt others inc = Inr s"
    unfolding Process_init_def Let_def names s_def by (simp only: sum.case)
  moreover have "required_acks s = card ?P"
    unfolding s_def using r by (simp only: Process.select_convs)
  moreover have "card {n. \<exists>p\<in>?P. port_to_process p = Some n} = card ?P"
    using card_image [OF inj] by (simp only: img)
  ultimately show "\<exists>s. Process_init pid prt others inc = Inr s
         \<and> required_acks s = card {n. \<exists>p\<in>?P. port_to_process p = Some n}
         \<and> required_acks s = card ?P"
    by (intro exI [of _ s]) (simp only: simp_thms)
qed

text \<open>
  The group of \<^verbatim>\<open>main.py\<close> gives the example process with three required
  acknowledgments; a repeated port counts once; the port 5003 raises.
\<close>

theorem Process_init_ports_witness:
  "Process_init ''processo1'' 5000 [5001, 5002] 1 = Inr example_process
   \<and> required_acks example_process = 3
   \<and> card (set [5000, 5001, 5002 :: int]) = 3
   \<and> Process_init ''processo1'' 5000 [5003, 5001] 1 = Inl (KeyError (PyInt 5003))"
proof -
  have a: "Process_init ''processo1'' 5000 [5001, 5002] 1 = Inr example_process"
    by (simp add: Process_init_def example_process_def port_to_process_def
        fcard_finsert_if fcard_fempty)
  have b: "Process_init ''processo1'' 5000 [5003, 5001] 1 = Inl (KeyError (PyInt 5003))"
    by (simp add: Process_init_def port_to_process_def)
  from Process_init_ports [of 5000 "[5001, 5002]" "''processo1''" 1]
    Process_init_ports [of 5000 "[5003, 5001]" "''processo1''" 1] a b
  show ?thesis by (simp add: example_process_def)
qed

section \<open>The receive path\<close>

lemma process_acknowledgment_counted:
  assumes "acknowledgments s (original_msg_id a) = Some A"
  shows "process_acknowledgment b s a =
     Some (s\<lparr>logical_clock := max (logical_clock s) (timestamp a) + clock_increment s,
             acknowledgments := (acknowledgments s)(original_msg_id a \<mapsto> finsert (sender a) A)\<rparr>)"
  using assms
  by (simp add: process_acknowledgment_def update_clock_on_receive_def
      increment_for_delivery_def Let_def)

lemma process_acknowledgment_buffered:
  assumes "acknowledgments s (original_msg_id a) = None"
  shows "process_acknowledgment False s a =
     Some (s\<lparr>logical_clock := max (logical_clock s) (timestamp a) + clock_increment s,
             pending_acks := (pending_acks s)
               (original_msg_id a \<mapsto> buffered s (original_msg_id a) @ [a])\<rparr>)"
  using assms
  by (simp add: process_acknowledgment_def update_clock_on_receive_def
      increment_for_delivery_def Let_def buffered_def)

lemma replay_counted:
  assumes "acknowledgments s k = Some A" and "\<forall>a\<in>set l. original_msg_id a = k"
  shows "replay l s =
     Some (s\<lparr>logical_clock := replay_clock (clock_increment s) (logical_clock s) l,
             acknowledgments := (acknowledgments s)(k \<mapsto> A |\<union>| fset_of_list (map sender l))\<rparr>)"
  using assms
proof (induction l arbitrary: s A)
  case Nil
  then show ?case by (simp add: replay_clock_def fun_upd_idem)
next
  case (Cons a l)
  let ?s1 = "s\<lparr>logical_clock := max (logical_clock s) (timestamp a) + clock_increment s,
             acknowledgments := (acknowledgments s)(k \<mapsto> finsert (sender a) A)\<rparr>"
  have k: "original_msg_id a = k" using Cons.prems(2) by simp
  have one: "process_acknowledgment True s a = Some ?s1"
    using process_acknowledgment_counted [of s a A True] Cons.prems(1) k by simp
  have "replay l ?s1 =
     Some (?s1\<lparr>logical_clock := replay_clock (clock_increment ?s1) (logical_clock ?s1) l,
             acknowledgments := (acknowledgments ?s1)
               (k \<mapsto> finsert (sender a) A |\<union>| fset_of_list (map sender l))\<rparr>)"
    using Cons.prems(2) by (intro Cons.IH) simp_all
  then show ?case using one by (cases s) (auto simp: replay_clock_def fun_eq_iff)
qed

lemma process_received_multicast:
  assumes "msg_type m = MULTICAST" and "pending_wf s"
  shows "process_received_message s m =
     Some (s\<lparr>logical_clock :=
               replay_clock (clock_increment s)
                 (max (logical_clock s) (timestamp m) + clock_increment s)
                 (buffered s (Some (msg_id m))),
             message_queue := sort_key queue_key (message_queue s @ [m]),
             acknowledgments := (acknowledgments s)
               (Some (msg_id m) \<mapsto> fset_of_list (map sender (buffered s (Some (msg_id m))))),
             pending_acks := (pending_acks s)(Some (msg_id m) := None)\<rparr>)"
proof (cases "pending_acks s (Some (msg_id m))")
  case None
  then have "(pending_acks s)(Some (msg_id m) := None) = pending_acks s"
    by (simp add: fun_upd_idem)
  then show ?thesis using None assms(1)
    by (simp add: process_received_message_def update_clock_on_receive_def
        increment_for_delivery_def Let_def buffered_def replay_clock_def)
next
  case (Some l)
  let ?s4 = "s\<lparr>logical_clock := max (logical_clock s) (timestamp m) + clock_increment s,
      message_queue := sort_key queue_key (message_queue s @ [m]),
      acknowledgments := (acknowledgments s)(Some (msg_id m) \<mapsto> {||}),
      pending_acks := (pending_acks s)(Some (msg_id m) := None)\<rparr>"
  have l: "\<forall>a\<in>set l. original_msg_id a = Some (msg_id m)"
    using assms(2) Some by (auto simp: pending_wf_def)
  have "acknowledgments ?s4 (Some (msg_id m)) = Some {||}" by simp
  from replay_counted [OF this l]
  have "replay l ?s4 = Some (?s4\<lparr>logical_clock :=
               replay_clock (clock_increment ?s4) (logical_clock ?s4) l,
             acknowledgments := (acknowledgments ?s4)
               (Some (msg_id m) \<mapsto> {||} |\<union>| fset_of_list (map sender l))\<rparr>)" .
  then show ?thesis using Some assms(1)
    by (simp add: process_received_message_def update_clock_on_receive_def
        increment_for_delivery_def Let_def buffered_def)
qed


lemma pending_wf_step:
  assumes "pending_wf s" and "step s e = Some s'"
  shows "pending_wf s'"
proof (cases e)
  case (Receive m)
  show ?thesis
  proof (cases "msg_type m")
    case MULTICAST
    from process_received_multicast [OF MULTICAST assms(1)] assms Receive show ?thesis
      by (auto simp: pending_wf_def split: if_splits)
  next
    case ACK
    show ?thesis
    proof (cases "acknowledgments s (original_msg_id m)")
      case None
      from process_acknowledgment_buffered [OF None] assms Receive ACK show ?thesis
        by (auto simp: pending_wf_def process_received_message_def buffered_def
            split: if_splits option.splits)
    next
      case (Some A)
      from process_acknowledgment_counted [OF Some, of False] assms Receive ACK show ?thesis
        by (auto simp: pending_wf_def process_received_message_def)
    qed
  qed
next
  case Deliver
  with assms show ?thesis
    by (auto simp: pending_wf_def try_deliver_message_def deliver_message_def
        split: list.splits option.splits if_splits)
next
  case (Send c)
  with assms show ?thesis
    by (auto simp: pending_wf_def send_message_def increment_clock_def Let_def)
next
  case Pass
  with assms show ?thesis
    by (auto simp: pending_wf_def increment_clock_def Let_def)
next
  case (SendAck m)
  with assms show ?thesis
    by (auto simp: pending_wf_def send_acknowledgment_def increment_clock_def Let_def)
qed

lemma Process_init_fresh:
  assumes "Process_init pid prt others inc = Inr s"
  shows "message_queue s = [] \<and> pending_acks s = Map.empty \<and> acknowledgments s = Map.empty
     \<and> logical_clock s = 0 \<and> delivered s = []"
  using assms by (auto simp: Process_init_def Let_def split: sum.splits simp del: sort_key_simps)

lemma reachable_pending_wf: "reachable s \<Longrightarrow> pending_wf s"
proof (induction rule: reachable.induct)
  case (reachable_init pid prt others inc s)
  from Process_init_fresh [OF this] show ?case by (simp add: pending_wf_def)
next
  case (reachable_step s e s')
  then show ?case using pending_wf_step by blast
qed


lemma sorted_queue_step:
  assumes "pending_wf s" and "sorted (map queue_key (message_queue s))" and "step s e = Some s'"
  shows "sorted (map queue_key (message_queue s'))"
proof (cases e)
  case (Receive m)
  show ?thesis
  proof (cases "msg_type m")
    case MULTICAST
    from process_received_multicast [OF MULTICAST assms(1)] assms Receive show ?thesis
      by (auto simp del: sort_key_simps)
  next
    case ACK
    show ?thesis
    proof (cases "acknowledgments s (original_msg_id m)")
      case None
      from process_acknowledgment_buffered [OF None] assms Receive ACK show ?thesis
        by (auto simp: process_received_message_def)
    next
      case (Some A)
      from process_acknowledgment_counted [OF Some, of False] assms Receive ACK show ?thesis
        by (auto simp: process_received_message_def)
    qed
  qed
next
  case Deliver
  with assms show ?thesis
    by (auto simp: try_deliver_message_def deliver_message_def
        split: list.splits option.splits if_splits)
next
  case (Send c)
  with assms show ?thesis
    by (auto simp: send_message_def increment_clock_def Let_def)
next
  case Pass
  with assms show ?thesis
    by (auto simp: increment_clock_def Let_def)
next
  case (SendAck m)
  with assms show ?thesis
    by (auto simp: send_acknowledgment_def increment_clock_def Let_def)
qed

lemma reachable_sorted_queue: "reachable s \<Longrightarrow> sorted (map queue_key (message_queue s))"
proof (induction rule: reachable.induct)
  case (reachable_init pid prt others inc s)
  from Process_init_fresh [OF this] show ?case by simp
next
  case (reachable_step s e s')
  then show ?case using sorted_queue_step reachable_pending_wf by blast
qed

lemma sorted_queue_unique:
  assumes "sorted (map queue_key q1)" and "sorted (map queue_key q2)"
    and "distinct (map queue_key q1)" and "distinct (map queue_key q2)"
    and "set q1 = set q2"
  shows "q1 = q2"
proof -
  have "set (map queue_key q1) = set (map queue_key q2)"
    using assms(5) by simp
  with assms(1-4) have keys: "map queue_key q1 = map queue_key q2"
    by (intro sorted_distinct_set_unique)
  have "inj_on queue_key (set q1 \<union> set q2)"
    using assms(3,5) by (simp add: distinct_map)
  with keys show ?thesis by (simp add: inj_on_map_eq_map)
qed

section \<open>The order of the queue\<close>

lemma example_process_init:
  "Process_init ''processo1'' 5000 [5001, 5002] 1 = Inr example_process"
  by (simp add: Process_init_def example_process_def port_to_process_def
      fcard_finsert_if fcard_fempty)

lemma reachable_run: "reachable s \<Longrightarrow> run s es = Some s' \<Longrightarrow> reachable s'"
proof (induction es arbitrary: s)
  case Nil
  then show ?case by simp
next
  case (Cons e es)
  from Cons.prems(2) obtain s1 where e: "step s e = Some s1" and es: "run s1 es = Some s'"
    by (auto split: option.splits)
  from Cons.prems(1) e have "reachable s1" by (rule reachable_step)
  from Cons.IH [OF this es] show ?case .
qed

lemma reachable_example_process: "reachable example_process"
  using example_process_init by (rule reachable_init)

lemma queue_key_le:
  "queue_key a \<le> queue_key b \<longleftrightarrow>
     timestamp a < timestamp b \<or> (timestamp a = timestamp b \<and> sender a \<le> sender b)"
  by (auto simp: queue_key_def)

text \<open>
  C2 (as amended). Two reachable states whose queues hold the same set of messages,
  with no two entries of a queue sharing the key \<open>(timestamp, sender)\<close>, have the
  same queue. After a multicast is received by a reachable process the queue is the
  old queue with the message added, sorted ascending by that key: by timestamp, and
  for equal timestamps by the sender name in lexicographic order.
\<close>

theorem queue_order_determined:
  "(reachable s1 \<and> reachable s2
      \<and> set (message_queue s1) = set (message_queue s2)
      \<and> distinct (map queue_key (message_queue s1))
      \<and> distinct (map queue_key (message_queue s2))
      \<longrightarrow> message_queue s1 = message_queue s2)
   \<and> (reachable s \<and> msg_type m = MULTICAST \<longrightarrow>
        (\<exists>s'. process_received_message s m = Some s'
           \<and> sorted (map queue_key (message_queue s'))
           \<and> mset (message_queue s') = add_mset m (mset (message_queue s))))
   \<and> (queue_key a \<le> queue_key b \<longleftrightarrow>
        timestamp a < timestamp b \<or> (timestamp a = timestamp b \<and> sender a \<le> sender b))"
proof (intro conjI impI)
  assume h: "reachable s1 \<and> reachable s2
      \<and> set (message_queue s1) = set (message_queue s2)
      \<and> distinct (map queue_key (message_queue s1))
      \<and> distinct (map queue_key (message_queue s2))"
  then have "sorted (map queue_key (message_queue s1))"
    and "sorted (map queue_key (message_queue s2))"
    by (simp_all add: reachable_sorted_queue)
  with h show "message_queue s1 = message_queue s2"
    by (intro sorted_queue_unique) simp_all
next
  assume h: "reachable s \<and> msg_type m = MULTICAST"
  then have wf: "pending_wf s" by (simp add: reachable_pending_wf)
  from h have mc: "msg_type m = MULTICAST" by simp
  show "\<exists>s'. process_received_message s m = Some s'
           \<and> sorted (map queue_key (message_queue s'))
           \<and> mset (message_queue s') = add_mset m (mset (message_queue s))"
    by (simp add: process_received_multicast [OF mc wf] del: sort_key_simps)
next
  show "queue_key a \<le> queue_key b \<longleftrightarrow>
        timestamp a < timestamp b \<or> (timestamp a = timestamp b \<and> sender a \<le> sender b)"
    by (rule queue_key_le)
qed

lemmas eval_defs = process_received_message_def process_acknowledgment_def
  update_clock_on_receive_def increment_for_delivery_def increment_clock_def
  try_deliver_message_def deliver_message_def send_message_def send_acknowledgment_def
  queue_key_def Let_def

lemmas example_defs = example_process_def example_hello_def example_world_def
  example_twin_def example_tie_def example_ack_def example_pending_def
  example_delivered_def example_late_def example_blocked_def example_ready_def
  example_tie_ab_def example_tie_ba_def example_acked_def

text \<open>
  Without the condition on the keys the first part fails: two multicasts with the
  same sender and timestamp keep their order of arrival, so the process that
  receives \<open>example_hello\<close> first and the one that receives \<open>example_twin\<close> first
  hold the same set of messages in different orders.
\<close>

theorem queue_order_counterexample:
  "Process_init ''processo1'' 5000 [5001, 5002] 1 = Inr example_process
   \<and> map_option message_queue (run example_process [Receive example_hello, Receive example_twin])
       = Some [example_hello, example_twin]
   \<and> map_option message_queue (run example_process [Receive example_twin, Receive example_hello])
       = Some [example_twin, example_hello]
   \<and> set [example_hello, example_twin] = set [example_twin, example_hello]
   \<and> [example_hello, example_twin] \<noteq> [example_twin, example_hello]"
proof -
  have a: "map_option message_queue (run example_process [Receive example_hello, Receive example_twin])
       = Some [example_hello, example_twin]"
    by (simp add: eval_defs example_defs)
  have b: "map_option message_queue (run example_process [Receive example_twin, Receive example_hello])
       = Some [example_twin, example_hello]"
    by (simp add: eval_defs example_defs)
  have c: "set [example_hello, example_twin] = set [example_twin, example_hello]"
    by auto
  have d: "[example_hello, example_twin] \<noteq> [example_twin, example_hello]"
    by (simp add: example_defs)
  from example_process_init a b c d show ?thesis by blast
qed


text \<open>
  The tie of the two senders at timestamp 5: in whichever order the two multicasts
  arrive, \<open>processo1\<close>'s is queued first.
\<close>

lemma run_example_tie_ab:
  "run example_process [Receive (example_tie ''processo1''), Receive (example_tie ''processo2'')]
     = Some example_tie_ab"
  by (simp add: eval_defs example_defs)

lemma run_example_tie_ba:
  "run example_process
     [Receive (example_tie ''processo2''), Receive (example_tie ''processo1''), Pass]
     = Some example_tie_ba"
  by (simp add: eval_defs example_defs)

theorem queue_order_determined_witness:
  "reachable example_tie_ab \<and> reachable example_tie_ba
   \<and> logical_clock example_tie_ab \<noteq> logical_clock example_tie_ba
   \<and> set (message_queue example_tie_ab) = set (message_queue example_tie_ba)
   \<and> distinct (map queue_key (message_queue example_tie_ab))
   \<and> distinct (map queue_key (message_queue example_tie_ba))
   \<and> message_queue example_tie_ab = message_queue example_tie_ba
   \<and> message_queue example_tie_ba = [example_tie ''processo1'', example_tie ''processo2'']
   \<and> msg_type example_hello = MULTICAST
   \<and> map_option message_queue (process_received_message example_tie_ab example_hello)
       = Some [example_hello, example_tie ''processo1'', example_tie ''processo2'']
   \<and> sorted (map queue_key [example_hello, example_tie ''processo1'', example_tie ''processo2''])
   \<and> queue_key (example_tie ''processo1'') \<le> queue_key (example_tie ''processo2'')"
proof -
  have r1: "reachable example_tie_ab"
    using reachable_example_process run_example_tie_ab by (rule reachable_run)
  have r2: "reachable example_tie_ba"
    using reachable_example_process run_example_tie_ba by (rule reachable_run)
  have q: "set (message_queue example_tie_ab) = set (message_queue example_tie_ba)
      \<and> distinct (map queue_key (message_queue example_tie_ab))
      \<and> distinct (map queue_key (message_queue example_tie_ba))"
    by (simp add: example_defs queue_key_def)
  have m: "msg_type example_hello = MULTICAST"
    by (simp add: example_defs)
  from queue_order_determined [of example_tie_ab example_tie_ba example_tie_ab example_hello
      "example_tie ''processo1''" "example_tie ''processo2''"] r1 r2 q m
  have t: "message_queue example_tie_ab = message_queue example_tie_ba
    \<and> queue_key (example_tie ''processo1'') \<le> queue_key (example_tie ''processo2'')"
    by (simp add: example_defs queue_key_def)
  have e: "map_option message_queue (process_received_message example_tie_ab example_hello)
       = Some [example_hello, example_tie ''processo1'', example_tie ''processo2'']"
    by (simp add: eval_defs example_defs)
  have c: "logical_clock example_tie_ab \<noteq> logical_clock example_tie_ba"
    by (simp add: example_defs)
  have b: "message_queue example_tie_ba
      = [example_tie ''processo1'', example_tie ''processo2'']"
    by (simp add: example_defs)
  have o: "sorted (map queue_key
      [example_hello, example_tie ''processo1'', example_tie ''processo2''])"
    by (simp add: example_defs queue_key_def)
  from r1 r2 q m t e c b o show ?thesis by (intro conjI) simp_all
qed

section \<open>Acknowledgments that arrive early or late\<close>


lemma run_example_pending:
  "run example_process
     [Receive (example_ack ''processo2'' 3), Receive (example_ack ''processo3'' 4)]
     = Some example_pending"
  by (simp add: eval_defs example_defs)

lemma reachable_example_pending: "reachable example_pending"
  using reachable_example_process run_example_pending by (rule reachable_run)

lemma fcard_fimage_fset_of_list: "fcard (f |`| fset_of_list l) = card (f ` set l)"
  by (simp add: fcard.rep_eq fset_of_list.rep_eq)

text \<open>
  C3. An acknowledgment processed while the id it acknowledges has no entry in the
  acknowledgment table is appended to the pending buffer under that id, and the table
  is left as it was. When a reachable process then receives the multicast with that
  id, the call returns, and in the state it leaves the entry of the id holds exactly
  the senders of the buffered acknowledgments: each of them is in the set, the set
  counts each sender once, every buffered acknowledgment has gone through the clock
  rule of the acknowledgment path once, in order, and the buffer entry is gone while
  the other buffer entries are kept.
\<close>

theorem pending_ack_replayed_once:
  "(msg_type a = ACK \<and> acknowledgments s (original_msg_id a) = None \<longrightarrow>
      (\<exists>s'. process_received_message s a = Some s'
         \<and> pending_acks s' =
             (pending_acks s)(original_msg_id a \<mapsto> buffered s (original_msg_id a) @ [a])
         \<and> acknowledgments s' = acknowledgments s))
   \<and> (reachable s \<and> msg_type m = MULTICAST \<longrightarrow>
      (\<exists>s'. process_received_message s m = Some s'
         \<and> acknowledgments s' (Some (msg_id m)) =
             Some (fset_of_list (map sender (buffered s (Some (msg_id m)))))
         \<and> (\<forall>a\<in>set (buffered s (Some (msg_id m))).
               \<exists>acked. acknowledgments s' (Some (msg_id m)) = Some acked \<and> sender a |\<in>| acked)
         \<and> (\<exists>acked. acknowledgments s' (Some (msg_id m)) = Some acked
               \<and> fcard acked = card (sender ` set (buffered s (Some (msg_id m)))))
         \<and> logical_clock s' =
             replay_clock (clock_increment s)
               (max (logical_clock s) (timestamp m) + clock_increment s)
               (buffered s (Some (msg_id m)))
         \<and> pending_acks s' (Some (msg_id m)) = None
         \<and> (\<forall>k. k \<noteq> Some (msg_id m) \<longrightarrow> pending_acks s' k = pending_acks s k)))"
proof (intro conjI impI)
  assume h: "msg_type a = ACK \<and> acknowledgments s (original_msg_id a) = None"
  then have none: "acknowledgments s (original_msg_id a) = None" by simp
  from h process_acknowledgment_buffered [OF none]
  show "\<exists>s'. process_received_message s a = Some s'
         \<and> pending_acks s' =
             (pending_acks s)(original_msg_id a \<mapsto> buffered s (original_msg_id a) @ [a])
         \<and> acknowledgments s' = acknowledgments s"
    by (simp add: process_received_message_def)
next
  assume h: "reachable s \<and> msg_type m = MULTICAST"
  then have wf: "pending_wf s" by (simp add: reachable_pending_wf)
  from h have mc: "msg_type m = MULTICAST" by simp
  show "\<exists>s'. process_received_message s m = Some s'
         \<and> acknowledgments s' (Some (msg_id m)) =
             Some (fset_of_list (map sender (buffered s (Some (msg_id m)))))
         \<and> (\<forall>a\<in>set (buffered s (Some (msg_id m))).
               \<exists>acked. acknowledgments s' (Some (msg_id m)) = Some acked \<and> sender a |\<in>| acked)
         \<and> (\<exists>acked. acknowledgments s' (Some (msg_id m)) = Some acked
               \<and> fcard acked = card (sender ` set (buffered s (Some (msg_id m)))))
         \<and> logical_clock s' =
             replay_clock (clock_increment s)
               (max (logical_clock s) (timestamp m) + clock_increment s)
               (buffered s (Some (msg_id m)))
         \<and> pending_acks s' (Some (msg_id m)) = None
         \<and> (\<forall>k. k \<noteq> Some (msg_id m) \<longrightarrow> pending_acks s' k = pending_acks s k)"
    by (simp add: process_received_multicast [OF mc wf] fcard_fimage_fset_of_list
        fset_of_list_elem del: sort_key_simps)
qed

text \<open>
  With the acknowledgments of \<open>processo2\<close> and \<open>processo3\<close> buffered, a third one
  joins them at the end; and the multicast \<open>processo1_1\<close> then finds both counted,
  the buffer entry removed and the clock at 8 (5, then 6 for the multicast, 7 and 8
  for the two replayed acknowledgments).
\<close>

theorem pending_ack_replayed_once_witness:
  "msg_type (example_ack ''processo1'' 5) = ACK
   \<and> acknowledgments example_pending (original_msg_id (example_ack ''processo1'' 5)) = None
   \<and> map_option (\<lambda>s. pending_acks s (Some ''processo1_1''))
        (process_received_message example_pending (example_ack ''processo1'' 5))
       = Some (Some [example_ack ''processo2'' 3, example_ack ''processo3'' 4,
                     example_ack ''processo1'' 5])
   \<and> reachable example_pending
   \<and> msg_type example_hello = MULTICAST
   \<and> buffered example_pending (Some (msg_id example_hello))
       = [example_ack ''processo2'' 3, example_ack ''processo3'' 4]
   \<and> map_option (\<lambda>s. acknowledgments s (Some ''processo1_1''))
        (process_received_message example_pending example_hello)
       = Some (Some {|''processo2'', ''processo3''|})
   \<and> map_option (\<lambda>s. pending_acks s (Some ''processo1_1''))
        (process_received_message example_pending example_hello) = Some None
   \<and> map_option logical_clock (process_received_message example_pending example_hello)
       = Some 8"
proof -
  have a: "msg_type (example_ack ''processo1'' 5) = ACK"
    by (simp add: example_defs)
  have o: "original_msg_id (example_ack ''processo1'' 5) = Some ''processo1_1''"
    by (simp add: example_defs)
  have n: "acknowledgments example_pending (original_msg_id (example_ack ''processo1'' 5)) = None"
    by (simp add: example_defs)
  have m: "msg_type example_hello = MULTICAST"
    by (simp add: example_defs)
  have i: "msg_id example_hello = ''processo1_1''"
    by (simp add: example_defs)
  have b: "buffered example_pending (Some ''processo1_1'')
       = [example_ack ''processo2'' 3, example_ack ''processo3'' 4]"
    by (simp add: buffered_def example_pending_def)
  have c: "replay_clock 1 6 [example_ack ''processo2'' 3, example_ack ''processo3'' 4] = 8"
    by (simp add: replay_clock_def example_ack_def)
  have k: "clock_increment example_pending = 1 \<and> logical_clock example_pending = 5
      \<and> timestamp example_hello = 1"
    by (simp add: example_defs)
  note t = pending_ack_replayed_once [of "example_ack ''processo1'' 5" example_pending
      example_hello]
  from t a n obtain s1 where
    "process_received_message example_pending (example_ack ''processo1'' 5) = Some s1"
    and "pending_acks s1 =
      (pending_acks example_pending)
        (original_msg_id (example_ack ''processo1'' 5) \<mapsto>
           buffered example_pending (original_msg_id (example_ack ''processo1'' 5))
             @ [example_ack ''processo1'' 5])"
    by blast
  then have first: "map_option (\<lambda>s. pending_acks s (Some ''processo1_1''))
        (process_received_message example_pending (example_ack ''processo1'' 5))
       = Some (Some [example_ack ''processo2'' 3, example_ack ''processo3'' 4,
                     example_ack ''processo1'' 5])"
    by (simp add: o b)
  from t reachable_example_pending m
  obtain s' where "process_received_message example_pending example_hello = Some s'"
    and "acknowledgments s' (Some (msg_id example_hello)) =
             Some (fset_of_list (map sender (buffered example_pending (Some (msg_id example_hello)))))"
    and "logical_clock s' =
             replay_clock (clock_increment example_pending)
               (max (logical_clock example_pending) (timestamp example_hello)
                  + clock_increment example_pending)
               (buffered example_pending (Some (msg_id example_hello)))"
    and "pending_acks s' (Some (msg_id example_hello)) = None"
    by blast
  then have second: "map_option (\<lambda>s. acknowledgments s (Some ''processo1_1''))
        (process_received_message example_pending example_hello)
       = Some (Some {|''processo2'', ''processo3''|})
   \<and> map_option (\<lambda>s. pending_acks s (Some ''processo1_1''))
        (process_received_message example_pending example_hello) = Some None
   \<and> map_option logical_clock (process_received_message example_pending example_hello)
       = Some 8"
    by (simp add: i b c k) (simp add: example_ack_def)
  from a n first reachable_example_pending m b i second show ?thesis
    by (intro conjI) simp_all
qed

section \<open>The acknowledgment set of a received multicast\<close>

lemma receive_multicast_overwrites:
  assumes "msg_type m = MULTICAST"
  shows "process_received_message
           (s\<lparr>acknowledgments := (acknowledgments s)(Some (msg_id m) := x)\<rparr>) m
         = process_received_message s m"
  using assms
  by (cases "pending_acks s (Some (msg_id m))")
    (simp_all add: process_received_message_def update_clock_on_receive_def
      increment_for_delivery_def Let_def del: sort_key_simps)

lemma receive_multicast_unbuffered:
  assumes "msg_type m = MULTICAST" and "pending_acks s (Some (msg_id m)) = None"
  shows "\<exists>s'. process_received_message s m = Some s'
           \<and> acknowledgments s' (Some (msg_id m)) = Some {||}
           \<and> pending_acks s' = pending_acks s"
  using assms
  by (simp add: process_received_message_def update_clock_on_receive_def
      increment_for_delivery_def Let_def del: sort_key_simps)

lemma send_message_result:
  "msg_type (fst (send_message s c)) = MULTICAST
   \<and> sender (fst (send_message s c)) = proc_id s
   \<and> timestamp (fst (send_message s c)) = logical_clock s + clock_increment s
   \<and> acknowledgments (snd (send_message s c)) (Some (msg_id (fst (send_message s c))))
       = Some {||}
   \<and> pending_acks (snd (send_message s c)) = pending_acks s"
  by (simp add: send_message_def increment_clock_def Message_init_def Let_def)

text \<open>
  C6. The receipt of a multicast does not look at the entry its id has in the
  acknowledgment table: with the entry absent or set to any set, the outcome is the
  same. Where no acknowledgment is buffered for the id, the entry is the empty set
  afterwards. This includes the sender itself: \<open>send_message\<close> creates the empty
  entry of the new id, an acknowledgment that arrives next is counted in it, and the
  sender's receipt of its own multicast empties the entry again.
\<close>

theorem multicast_receipt_resets_acknowledgments:
  "(msg_type m = MULTICAST \<longrightarrow>
      process_received_message
        (s\<lparr>acknowledgments := (acknowledgments s)(Some (msg_id m) := x)\<rparr>) m
      = process_received_message s m)
   \<and> (msg_type m = MULTICAST \<and> pending_acks s (Some (msg_id m)) = None \<longrightarrow>
        (\<exists>s'. process_received_message s m = Some s'
           \<and> acknowledgments s' (Some (msg_id m)) = Some {||}))
   \<and> msg_type (fst (send_message s c)) = MULTICAST
   \<and> acknowledgments (snd (send_message s c)) (Some (msg_id (fst (send_message s c))))
       = Some {||}
   \<and> (msg_type a = ACK \<and> original_msg_id a = Some (msg_id (fst (send_message s c)))
        \<and> pending_acks s (Some (msg_id (fst (send_message s c)))) = None \<longrightarrow>
        (\<exists>s1 s2. process_received_message (snd (send_message s c)) a = Some s1
           \<and> acknowledgments s1 (Some (msg_id (fst (send_message s c)))) = Some {|sender a|}
           \<and> process_received_message s1 (fst (send_message s c)) = Some s2
           \<and> acknowledgments s2 (Some (msg_id (fst (send_message s c)))) = Some {||}))"
proof (intro conjI impI)
  assume "msg_type m = MULTICAST"
  then show "process_received_message
        (s\<lparr>acknowledgments := (acknowledgments s)(Some (msg_id m) := x)\<rparr>) m
      = process_received_message s m"
    by (rule receive_multicast_overwrites)
next
  assume "msg_type m = MULTICAST \<and> pending_acks s (Some (msg_id m)) = None"
  then show "\<exists>s'. process_received_message s m = Some s'
           \<and> acknowledgments s' (Some (msg_id m)) = Some {||}"
    using receive_multicast_unbuffered by blast
next
  show "msg_type (fst (send_message s c)) = MULTICAST"
    by (simp add: send_message_result)
next
  show "acknowledgments (snd (send_message s c)) (Some (msg_id (fst (send_message s c))))
       = Some {||}"
    by (simp add: send_message_result)
next
  let ?m = "fst (send_message s c)" and ?s0 = "snd (send_message s c)"
  assume h: "msg_type a = ACK \<and> original_msg_id a = Some (msg_id ?m)
        \<and> pending_acks s (Some (msg_id ?m)) = None"
  have entry: "acknowledgments ?s0 (original_msg_id a) = Some {||}"
    using h by (simp add: send_message_result)
  define s1 where "s1 = ?s0\<lparr>logical_clock :=
        max (logical_clock ?s0) (timestamp a) + clock_increment ?s0,
      acknowledgments := (acknowledgments ?s0)(original_msg_id a \<mapsto> finsert (sender a) {||})\<rparr>"
  have one: "process_received_message ?s0 a = Some s1"
    using h process_acknowledgment_counted [OF entry, of False]
    by (simp add: process_received_message_def s1_def)
  have counted: "acknowledgments s1 (Some (msg_id ?m)) = Some {|sender a|}"
    using h by (simp add: s1_def)
  have "pending_acks s1 (Some (msg_id ?m)) = None"
    using h by (simp add: s1_def send_message_result)
  with receive_multicast_unbuffered [of ?m s1]
  obtain s2 where "process_received_message s1 ?m = Some s2"
    and "acknowledgments s2 (Some (msg_id ?m)) = Some {||}"
    by (auto simp: send_message_result)
  with one counted show "\<exists>s1 s2. process_received_message ?s0 a = Some s1
           \<and> acknowledgments s1 (Some (msg_id ?m)) = Some {|sender a|}
           \<and> process_received_message s1 ?m = Some s2
           \<and> acknowledgments s2 (Some (msg_id ?m)) = Some {||}"
    by blast
qed

text \<open>
  The fully acknowledged \<open>processo1_1\<close> of the ready queue is back at no
  acknowledgment when the multicast arrives once more; and the process that sends
  \<open>hello\<close>, counts the acknowledgment of \<open>processo2\<close> and then receives its own
  multicast has lost that acknowledgment.
\<close>

lemma send_message_example:
  "fst (send_message example_process ''hello'') = example_hello"
  by (simp add: send_message_def increment_clock_def Message_init_def Let_def
      str_int_def str_nat.simps example_defs)

theorem multicast_receipt_resets_acknowledgments_witness:
  "msg_type example_hello = MULTICAST
   \<and> acknowledgments example_ready (Some (msg_id example_hello))
       = Some {|''processo1'', ''processo2'', ''processo3''|}
   \<and> pending_acks example_ready (Some (msg_id example_hello)) = None
   \<and> map_option (\<lambda>s. acknowledgments s (Some (msg_id example_hello)))
        (process_received_message example_ready example_hello) = Some (Some {||})
   \<and> process_received_message
        (example_ready\<lparr>acknowledgments :=
           (acknowledgments example_ready)(Some (msg_id example_hello) := None)\<rparr>) example_hello
       = process_received_message example_ready example_hello
   \<and> fst (send_message example_process ''hello'') = example_hello
   \<and> msg_type (example_ack ''processo2'' 3) = ACK
   \<and> original_msg_id (example_ack ''processo2'' 3) = Some (msg_id example_hello)
   \<and> pending_acks example_process (Some (msg_id example_hello)) = None
   \<and> map_option (\<lambda>s. acknowledgments s (Some (msg_id example_hello)))
        (run example_process [Send ''hello'', Receive (example_ack ''processo2'' 3)])
       = Some (Some {|''processo2''|})
   \<and> map_option (\<lambda>s. acknowledgments s (Some (msg_id example_hello)))
        (run example_process
           [Send ''hello'', Receive (example_ack ''processo2'' 3), Receive example_hello])
       = Some (Some {||})"
proof -
  have m: "msg_type example_hello = MULTICAST"
    by (simp add: example_defs)
  have r: "acknowledgments example_ready (Some (msg_id example_hello))
       = Some {|''processo1'', ''processo2'', ''processo3''|}"
    by (simp add: example_defs)
  have p: "pending_acks example_ready (Some (msg_id example_hello)) = None"
    by (simp add: example_defs)
  have a: "msg_type (example_ack ''processo2'' 3) = ACK
      \<and> original_msg_id (example_ack ''processo2'' 3) = Some (msg_id example_hello)
      \<and> sender (example_ack ''processo2'' 3) = ''processo2''"
    by (simp add: example_defs)
  have q: "pending_acks example_process (Some (msg_id example_hello)) = None"
    by (simp add: example_defs)
  note t1 = multicast_receipt_resets_acknowledgments [of example_hello example_ready None
      "''hello''" "example_ack ''processo2'' 3"]
  note t2 = multicast_receipt_resets_acknowledgments [of example_hello example_process None
      "''hello''" "example_ack ''processo2'' 3"]
  from t1 m p have first: "map_option (\<lambda>s. acknowledgments s (Some (msg_id example_hello)))
        (process_received_message example_ready example_hello) = Some (Some {||})
    \<and> process_received_message
        (example_ready\<lparr>acknowledgments :=
           (acknowledgments example_ready)(Some (msg_id example_hello) := None)\<rparr>) example_hello
       = process_received_message example_ready example_hello"
    by auto
  from t2 a q send_message_example
  obtain s1 s2 where
    "process_received_message (snd (send_message example_process ''hello''))
       (example_ack ''processo2'' 3) = Some s1"
    and "acknowledgments s1 (Some (msg_id example_hello)) = Some {|''processo2''|}"
    and "process_received_message s1 example_hello = Some s2"
    and "acknowledgments s2 (Some (msg_id example_hello)) = Some {||}"
    by auto
  then have second: "map_option (\<lambda>s. acknowledgments s (Some (msg_id example_hello)))
        (run example_process [Send ''hello'', Receive (example_ack ''processo2'' 3)])
       = Some (Some {|''processo2''|})
   \<and> map_option (\<lambda>s. acknowledgments s (Some (msg_id example_hello)))
        (run example_process
           [Send ''hello'', Receive (example_ack ''processo2'' 3), Receive example_hello])
       = Some (Some {||})"
    by simp
  from m r p first send_message_example a q second show ?thesis
    by (intro conjI) simp_all
qed











end
